theory Spec2Isabelle
  imports Main "HOL-Library.Multiset"
begin

section \<open>The job queue (class JobQueue)\<close>

text \<open>
  A job is a JavaScript object. The listing crawler creates it with \<open>id\<close>, \<open>url\<close> and preview
  fields; the queue adds the bookkeeping properties. Every property the queue reads or
  writes is a field of the record; the remaining own properties travel in \<open>props\<close>.
  An absent property is \<open>None\<close>. \<open>Date.now()\<close> is a parameter of every operation that
  reads the clock; an operation that reads it once for each job of a list takes a
  function from the position in the list to the reading.
\<close>

type_synonym timestamp = nat

record job =
  job_id :: string
  url :: string
  props :: "(string \<times> string) list"
  addedAt :: "timestamp option"
  attempts :: nat
  startedAt :: "timestamp option"
  completedAt :: "timestamp option"
  result :: "string option"
  error :: "string option"
  failedAt :: "timestamp option"

text \<open>The events the queue emits, in emission order, each with its payload.\<close>

datatype event =
    JobAdded job
  | JobStarted job
  | JobCompleted job
  | JobRetry job
  | JobFailed job
  | QueueDone nat nat
  | QueuePaused
  | QueueResumed
  | QueueCleared

record job_queue =
  pending :: "job list"
  processing :: "job list"
  completed :: "job list"
  failed :: "job list"
  paused :: bool
  emitted :: "event list"

definition JobQueue :: job_queue where
  "JobQueue = \<lparr>pending = [], processing = [], completed = [], failed = [],
               paused = False, emitted = []\<rparr>"

definition emit :: "event \<Rightarrow> job_queue \<Rightarrow> job_queue" where
  "emit e q = q\<lparr>emitted := emitted q @ [e]\<rparr>"

text \<open>\<open>Array.prototype.some\<close> and \<open>findIndex\<close> (\<open>None\<close> is the source's \<open>-1\<close>).\<close>

definition some :: "('a \<Rightarrow> bool) \<Rightarrow> 'a list \<Rightarrow> bool" where
  "some P xs = list_ex P xs"

fun findIndex :: "('a \<Rightarrow> bool) \<Rightarrow> 'a list \<Rightarrow> nat option" where
  "findIndex P [] = None"
| "findIndex P (x # xs) = (if P x then Some 0 else map_option Suc (findIndex P xs))"

text \<open>\<open>xs.splice(index, 1)\<close>: the array without the element at \<open>index\<close>.\<close>

definition splice1 :: "nat \<Rightarrow> 'a list \<Rightarrow> 'a list" where
  "splice1 index xs = take index xs @ drop (Suc index) xs"

definition exists :: "string \<Rightarrow> job_queue \<Rightarrow> bool" where
  "exists jobId q =
     (some (\<lambda>j. job_id j = jobId) (pending q) \<or>
      some (\<lambda>j. job_id j = jobId) (processing q) \<or>
      some (\<lambda>j. job_id j = jobId) (completed q) \<or>
      some (\<lambda>j. job_id j = jobId) (failed q))"

definition add :: "timestamp \<Rightarrow> job \<Rightarrow> job_queue \<Rightarrow> bool \<times> job_queue" where
  "add now job q =
     (if exists (job_id job) q then (False, q)
      else (True, emit (JobAdded job)
                    (q\<lparr>pending := pending q @ [job\<lparr>addedAt := Some now, attempts := 0\<rparr>]\<rparr>)))"

text \<open>
  The \<open>for\<close> loop of \<open>addBulk\<close>, with its counter \<open>added\<close>. Each \<open>add\<close> reads the clock
  itself: \<open>clock i\<close> is the reading that the \<open>add\<close> of the job at position \<open>i\<close> sees.
\<close>

fun addBulk_loop ::
  "(nat \<Rightarrow> timestamp) \<Rightarrow> job list \<Rightarrow> nat \<Rightarrow> nat \<Rightarrow> job_queue \<Rightarrow> nat \<times> job_queue" where
  "addBulk_loop clock [] i added q = (added, q)"
| "addBulk_loop clock (job # jobs) i added q =
     (case add (clock i) job q of
        (True, q') \<Rightarrow> addBulk_loop clock jobs (Suc i) (added + 1) q'
      | (False, q') \<Rightarrow> addBulk_loop clock jobs (Suc i) added q')"

definition addBulk :: "(nat \<Rightarrow> timestamp) \<Rightarrow> job list \<Rightarrow> job_queue \<Rightarrow> nat \<times> job_queue" where
  "addBulk clock jobs q = addBulk_loop clock jobs 0 0 q"

definition getNext :: "timestamp \<Rightarrow> job_queue \<Rightarrow> job option \<times> job_queue" where
  "getNext now q =
     (if paused q \<or> pending q = [] then (None, q)
      else
        (let job = (hd (pending q))\<lparr>startedAt := Some now, attempts := attempts (hd (pending q)) + 1\<rparr>
         in (Some job,
             emit (JobStarted job)
               (q\<lparr>pending := tl (pending q), processing := processing q @ [job]\<rparr>))))"

definition checkDone :: "job_queue \<Rightarrow> job_queue" where
  "checkDone q =
     (if pending q = [] \<and> processing q = []
      then emit (QueueDone (length (completed q)) (length (failed q))) q
      else q)"

definition complete :: "timestamp \<Rightarrow> string \<Rightarrow> string option \<Rightarrow> job_queue \<Rightarrow> bool \<times> job_queue" where
  "complete now jobId res q =
     (case findIndex (\<lambda>j. job_id j = jobId) (processing q) of
        None \<Rightarrow> (False, q)
      | Some index \<Rightarrow>
          (let job = (processing q ! index)\<lparr>completedAt := Some now, result := res\<rparr>
           in (True,
               checkDone (emit (JobCompleted job)
                 (q\<lparr>processing := splice1 index (processing q),
                    completed := completed q @ [job]\<rparr>)))))"

text \<open>
  \<open>fail(jobId, error, retry)\<close>; \<open>msg\<close> is \<open>error.message\<close>. The retry limit is the
  literal \<open>3\<close> of the source.
\<close>

definition fail :: "timestamp \<Rightarrow> string \<Rightarrow> string \<Rightarrow> bool \<Rightarrow> job_queue \<Rightarrow> bool \<times> job_queue" where
  "fail now jobId msg retry q =
     (case findIndex (\<lambda>j. job_id j = jobId) (processing q) of
        None \<Rightarrow> (False, q)
      | Some index \<Rightarrow>
          (let job = (processing q ! index)\<lparr>error := Some msg, failedAt := Some now\<rparr>;
               q1 = q\<lparr>processing := splice1 index (processing q)\<rparr>
           in (True,
               checkDone
                 (if retry \<and> attempts job < 3
                  then emit (JobRetry job) (q1\<lparr>pending := job # pending q1\<rparr>)
                  else emit (JobFailed job) (q1\<lparr>failed := failed q1 @ [job]\<rparr>)))))"

definition pause :: "job_queue \<Rightarrow> job_queue" where
  "pause q = emit QueuePaused (q\<lparr>paused := True\<rparr>)"

definition resume :: "job_queue \<Rightarrow> job_queue" where
  "resume q = emit QueueResumed (q\<lparr>paused := False\<rparr>)"

definition isEmpty :: "job_queue \<Rightarrow> bool" where
  "isEmpty q = (pending q = [])"

definition isDone :: "job_queue \<Rightarrow> bool" where
  "isDone q = (pending q = [] \<and> processing q = [])"

definition clear :: "job_queue \<Rightarrow> job_queue" where
  "clear q = emit QueueCleared (q\<lparr>pending := [], processing := [], completed := [], failed := []\<rparr>)"

text \<open>
  \<open>retryFailed\<close>: \<open>this.failed.splice(0)\<close> empties the partition and yields its former
  content; the loop resets each job and pushes it on \<open>pending\<close>.
\<close>

definition reset_job :: "job \<Rightarrow> job" where
  "reset_job job = job\<lparr>attempts := 0, error := None, failedAt := None\<rparr>"

fun retryFailed_loop :: "job list \<Rightarrow> job_queue \<Rightarrow> job_queue" where
  "retryFailed_loop [] q = q"
| "retryFailed_loop (job # jobs) q =
     retryFailed_loop jobs (q\<lparr>pending := pending q @ [reset_job job]\<rparr>)"

definition retryFailed :: "job_queue \<Rightarrow> nat \<times> job_queue" where
  "retryFailed q =
     (let failedJobs = failed q
      in (length failedJobs, retryFailed_loop failedJobs (q\<lparr>failed := []\<rparr>)))"


subsection \<open>Runs of the queue\<close>

text \<open>
  JavaScript runs the queue's methods one at a time, so a run of the program is a sequence
  of method calls, each with the clock reading it sees (\<open>addBulk\<close> with the readings of
  its \<open>add\<close> calls). \<open>clear\<close> and \<open>retryFailed\<close> are not among them: no code of the
  repository calls either.
\<close>

datatype queue_op =
    Add job
  | AddBulk "nat \<Rightarrow> timestamp" "job list"
  | GetNext
  | Complete string "string option"
  | Fail string string bool
  | Pause
  | Resume

fun apply_op :: "timestamp \<Rightarrow> queue_op \<Rightarrow> job_queue \<Rightarrow> job_queue" where
  "apply_op now (Add job) q = snd (add now job q)"
| "apply_op now (AddBulk clock jobs) q = snd (addBulk clock jobs q)"
| "apply_op now GetNext q = snd (getNext now q)"
| "apply_op now (Complete jobId res) q = snd (complete now jobId res q)"
| "apply_op now (Fail jobId msg retry) q = snd (fail now jobId msg retry q)"
| "apply_op now Pause q = pause q"
| "apply_op now Resume q = resume q"

fun run :: "(timestamp \<times> queue_op) list \<Rightarrow> job_queue \<Rightarrow> job_queue" where
  "run [] q = q"
| "run ((now, op) # ops) q = run ops (apply_op now op q)"

text \<open>
  \<open>Worker.start\<close>, after \<open>processJob\<close>: \<open>complete(job.id)\<close> when it returned, and
  \<open>fail(job.id, error, true)\<close> when it threw.
\<close>

datatype outcome = Succeeded | Thrown string

fun worker_report :: "job \<Rightarrow> outcome \<Rightarrow> queue_op" where
  "worker_report job Succeeded = Complete (job_id job) None"
| "worker_report job (Thrown msg) = Fail (job_id job) msg True"

fun retryable :: "queue_op \<Rightarrow> bool" where
  "retryable (Fail jobId msg retry) = retry"
| "retryable _ = True"

text \<open>The partitions, their ids, and the number of times \<open>getNext\<close> handed an id out.\<close>

definition all_jobs :: "job_queue \<Rightarrow> job list" where
  "all_jobs q = pending q @ processing q @ completed q @ failed q"

definition ids :: "job_queue \<Rightarrow> string list" where
  "ids q = map job_id (all_jobs q)"

definition known_ids :: "job_queue \<Rightarrow> string set" where
  "known_ids q = job_id ` set (all_jobs q)"

definition partition_inv :: "job_queue \<Rightarrow> bool" where
  "partition_inv q = distinct (map job_id (all_jobs q))"

fun is_start :: "string \<Rightarrow> event \<Rightarrow> bool" where
  "is_start i (JobStarted j) = (job_id j = i)"
| "is_start i _ = False"

definition starts :: "string \<Rightarrow> job_queue \<Rightarrow> nat" where
  "starts i q = length (filter (is_start i) (emitted q))"

definition retry_inv :: "job_queue \<Rightarrow> bool" where
  "retry_inv q \<longleftrightarrow>
     partition_inv q \<and>
     (\<forall>j\<in>set (pending q). attempts j < 3 \<and> starts (job_id j) q = attempts j) \<and>
     (\<forall>j\<in>set (processing q). attempts j \<le> 3 \<and> starts (job_id j) q = attempts j) \<and>
     (\<forall>j\<in>set (failed q). attempts j = 3 \<and> starts (job_id j) q = 3) \<and>
     (\<forall>i. i \<notin> known_ids q \<longrightarrow> starts i q = 0)"

section \<open>The persistence store (class FileHandler)\<close>

text \<open>
  A stored record is the object a worker merges from the detail page: the handler reads
  its \<open>id\<close> and \<open>title\<close> only. A file holds either text that \<open>JSON.parse\<close> rejects, or a
  document with a \<open>metadata\<close> object and, when present, a \<open>jobs\<close> array. The disk keeps
  the content of every path and the sequence of \<open>writeFileSync\<close> calls; it accepts every
  write, and directories are not modelled. \<open>stamp\<close> is a value of
  \<open>new Date().toISOString()\<close>.
\<close>

datatype jvalue = JNum nat | JStr string

record job_data =
  data_id :: string
  title :: string
  details :: "(string \<times> string) list"

datatype file_content =
    Unparsable
  | Document (metadata: "(string \<times> jvalue) list") (stored: "job_data list option")

record disk =
  files :: "string \<rightharpoonup> file_content"
  written :: "(string \<times> file_content) list"

record file_handler =
  outputPath :: string
  jobs :: "job_data list"
  isInitialized :: bool

definition FileHandler :: "string \<Rightarrow> file_handler" where
  "FileHandler path = \<lparr>outputPath = path, jobs = [], isInitialized = False\<rparr>"

definition writeFileSync :: "string \<Rightarrow> file_content \<Rightarrow> disk \<Rightarrow> disk" where
  "writeFileSync path content d =
     d\<lparr>files := (files d)(path \<mapsto> content), written := written d @ [(path, content)]\<rparr>"

definition save :: "string \<Rightarrow> file_handler \<Rightarrow> disk \<Rightarrow> disk" where
  "save stamp h d =
     writeFileSync (outputPath h)
       (Document [(''totalJobs'', JNum (length (jobs h))),
                  (''lastUpdated'', JStr stamp),
                  (''version'', JStr ''1.0.0'')]
                 (Some (jobs h))) d"

text \<open>
  The loading step of \<open>init\<close>: an existing file replaces the records in memory by
  \<open>parsed.jobs || []\<close>, and by \<open>[]\<close> when parsing throws; without a file the records in
  memory stay.
\<close>

definition load_existing :: "file_handler \<Rightarrow> disk \<Rightarrow> job_data list" where
  "load_existing h d =
     (case files d (outputPath h) of
        None \<Rightarrow> jobs h
      | Some Unparsable \<Rightarrow> []
      | Some (Document md None) \<Rightarrow> []
      | Some (Document md (Some js)) \<Rightarrow> js)"

text \<open>\<open>init\<close>: load, mark the handler initialised, save the catalog.\<close>

definition init :: "string \<Rightarrow> file_handler \<Rightarrow> disk \<Rightarrow> file_handler \<times> disk" where
  "init stamp h d =
     (let h1 = h\<lparr>jobs := load_existing h d\<rparr>;
          h2 = h1\<lparr>isInitialized := True\<rparr>
      in (h2, save stamp h2 d))"


text \<open>The loop of \<open>addJobs\<close> over \<open>this.jobs\<close>, the set \<open>existingIds\<close> and \<open>addedCount\<close>.\<close>

fun addJobs_loop ::
  "job_data list \<Rightarrow> job_data list \<Rightarrow> string set \<Rightarrow> nat \<Rightarrow> job_data list \<times> string set \<times> nat" where
  "addJobs_loop [] js existingIds addedCount = (js, existingIds, addedCount)"
| "addJobs_loop (job # rest) js existingIds addedCount =
     (if data_id job \<notin> existingIds
      then addJobs_loop rest (js @ [job]) (insert (data_id job) existingIds) (addedCount + 1)
      else addJobs_loop rest js existingIds addedCount)"

definition addJobs :: "string \<Rightarrow> job_data list \<Rightarrow> file_handler \<Rightarrow> disk \<Rightarrow> nat \<times> file_handler \<times> disk" where
  "addJobs stamp new h d =
     (let (h1, d1) = (if \<not> isInitialized h then init stamp h d else (h, d));
          (js, existingIds, addedCount) = addJobs_loop new (jobs h1) (set (map data_id (jobs h1))) 0;
          h2 = h1\<lparr>jobs := js\<rparr>
      in if addedCount > 0 then (addedCount, h2, save stamp h2 d1) else (addedCount, h2, d1))"


definition getCount :: "file_handler \<Rightarrow> nat" where
  "getCount h = length (jobs h)"

definition getExistingIds :: "file_handler \<Rightarrow> string set" where
  "getExistingIds h = set (map data_id (jobs h))"

text \<open>
  \<open>String.prototype.replace\<close> with a string pattern replaces the first occurrence only;
  \<open>s.split('Z')[0]\<close> is the part of \<open>s\<close> before the first \<open>Z\<close>.
\<close>

fun replace_first :: "string \<Rightarrow> string \<Rightarrow> string \<Rightarrow> string" where
  "replace_first pat rep [] = (if pat = [] then rep else [])"
| "replace_first pat rep (c # cs) =
     (if take (length pat) (c # cs) = pat then rep @ drop (length pat) (c # cs)
      else c # replace_first pat rep cs)"

fun occurs_in :: "string \<Rightarrow> string \<Rightarrow> bool" where
  "occurs_in pat [] = (pat = [])"
| "occurs_in pat (c # cs) = (take (length pat) (c # cs) = pat \<or> occurs_in pat cs)"

definition backup_timestamp :: "string \<Rightarrow> string" where
  "backup_timestamp stamp =
     takeWhile (\<lambda>c. c \<noteq> CHR ''Z'')
       (replace_first ''T'' ''_''
          (map (\<lambda>c. if c = CHR '':'' \<or> c = CHR ''.'' then CHR ''-'' else c) stamp))"

definition backupPath :: "string \<Rightarrow> string \<Rightarrow> string" where
  "backupPath stamp path = replace_first ''.json'' (''-backup-'' @ backup_timestamp stamp @ ''.json'') path"

text \<open>\<open>backup\<close> reads the clock twice: \<open>stamp1\<close> for the file name, \<open>stamp2\<close> for \<open>backupDate\<close>.\<close>

definition backup :: "string \<Rightarrow> string \<Rightarrow> file_handler \<Rightarrow> disk \<Rightarrow> disk" where
  "backup stamp1 stamp2 h d =
     (if jobs h = [] then d
      else writeFileSync (backupPath stamp1 (outputPath h))
             (Document [(''totalJobs'', JNum (length (jobs h))),
                        (''backupDate'', JStr stamp2)]
                       (Some (jobs h))) d)"

text \<open>The invariant of the catalog: no two records share an id.\<close>

definition unique_ids :: "job_data list \<Rightarrow> bool" where
  "unique_ids js = distinct (map data_id js)"


section \<open>The listing walk (JobThaiScraper.scrapeJobListings)\<close>

text \<open>
  The configuration keys the modelled code reads (\<open>outputFile\<close> is the key \<open>output\<close>); a
  missing numeric key behaves as \<open>0\<close> on every path that reads it (\<open>maxPages || 0\<close>,
  \<open>retryAttempts > 0\<close>). \<open>delay\<close> is the object \<open>{min, max}\<close>, \<open>None\<close> when the key is
  missing: then \<open>randomDelay\<close> throws when it destructures it.
\<close>

record config =
  workers :: nat
  outputFile :: string
  delay :: "(nat \<times> nat) option"
  maxPages :: int
  retryAttempts :: int

text \<open>The constructor: the queue is created without any configuration.\<close>

record scraper =
  config :: config
  jobQueue :: job_queue
  fileHandler :: file_handler

definition JobThaiScraper :: "config \<Rightarrow> scraper" where
  "JobThaiScraper cfg = \<lparr>config = cfg, jobQueue = JobQueue, fileHandler = FileHandler (outputFile cfg)\<rparr>"

text \<open>
  The site is the environment: what the \<open>k\<close>-th navigation, to a given URL, produces.
  Either the \<open>try\<close> block throws before the queue is touched (while the page is opened,
  read and its jobs are extracted), or the page yields its jobs and then
  \<open>parsePagination\<close> throws, or the page yields its jobs and the result of
  \<open>parsePagination\<close>. The total that \<open>parseTotalJobs\<close> reads on the first page is only
  logged and is left out.
\<close>

record pagination =
  currentPage :: nat
  totalPages :: nat
  hasNext :: bool
  nextPageUrl :: "string option"

datatype fetch_result =
    Threw string
  | ParseThrew "job list" string
  | Loaded "job list" pagination

text \<open>JavaScript truthiness of a URL: \<open>null\<close> and the empty string are falsy.\<close>

definition truthy :: "string option \<Rightarrow> bool" where
  "truthy s = (case s of None \<Rightarrow> False | Some u \<Rightarrow> u \<noteq> [])"

record walk_state =
  currentUrl :: "string option"
  pageNum :: nat
  existingIds :: "string set"
  queue :: job_queue
  fetches :: nat
  pagesCompleted :: "nat list"

text \<open>
  The part of the \<open>try\<close> block that handles a loaded page: the jobs whose id is not in
  \<open>existingIds\<close> go to \<open>addBulk\<close>, their ids join \<open>existingIds\<close>, and
  \<open>pageQueue.completePage\<close> is told how many jobs the page had. \<open>fetches\<close> counts the
  navigations made so far; \<open>clock k i\<close> is the clock reading of the \<open>i\<close>-th \<open>add\<close> after
  the \<open>k\<close>-th navigation.
\<close>

definition enqueue_page :: "(nat \<Rightarrow> nat \<Rightarrow> timestamp) \<Rightarrow> job list \<Rightarrow> walk_state \<Rightarrow> walk_state" where
  "enqueue_page clock found st =
     (let newJobs = filter (\<lambda>job. job_id job \<notin> existingIds st) found
      in st\<lparr>queue := snd (addBulk (clock (fetches st)) newJobs (queue st)),
            existingIds := existingIds st \<union> job_id ` set newJobs,
            pagesCompleted := pagesCompleted st @ [length found],
            fetches := Suc (fetches st)\<rparr>)"

text \<open>
  The \<open>catch\<close> block, entered in state \<open>st\<close>: \<open>continue\<close> when \<open>retryAttempts > 0\<close>,
  \<open>break\<close> otherwise. One pass through the loop body either leaves the loop (\<open>Stop\<close>) or
  goes back to the loop test (\<open>Continue\<close>).
\<close>

datatype pass = Stop walk_state | Continue walk_state

definition catch_error :: "config \<Rightarrow> walk_state \<Rightarrow> pass" where
  "catch_error cfg st = (if retryAttempts cfg > 0 then Continue st else Stop st)"

text \<open>
  The loop body, for a truthy \<open>currentUrl\<close>. After the page is enqueued: \<open>break\<close> when the
  page cap is reached; else, when there is a next page, \<open>currentUrl\<close> and \<open>pageNum\<close>
  advance and \<open>randomDelay\<close> runs (a throw there reaches the \<open>catch\<close> block with the
  advanced state); else \<open>currentUrl\<close> becomes \<open>null\<close>.
\<close>

definition loop_pass ::
  "config \<Rightarrow> (nat \<Rightarrow> string \<Rightarrow> fetch_result) \<Rightarrow> (nat \<Rightarrow> nat \<Rightarrow> timestamp) \<Rightarrow> walk_state \<Rightarrow> pass" where
  "loop_pass cfg site clock st =
     (case site (fetches st) (the (currentUrl st)) of
        Threw msg \<Rightarrow> catch_error cfg (st\<lparr>fetches := Suc (fetches st)\<rparr>)
      | ParseThrew found msg \<Rightarrow> catch_error cfg (enqueue_page clock found st)
      | Loaded found pg \<Rightarrow>
          if maxPages cfg > 0 \<and> int (pageNum st) \<ge> maxPages cfg
          then Stop (enqueue_page clock found st)
          else if hasNext pg \<and> truthy (nextPageUrl pg)
          then (if delay cfg = None
                then catch_error cfg
                       ((enqueue_page clock found st)
                          \<lparr>currentUrl := nextPageUrl pg, pageNum := Suc (pageNum st)\<rparr>)
                else Continue
                       ((enqueue_page clock found st)
                          \<lparr>currentUrl := nextPageUrl pg, pageNum := Suc (pageNum st)\<rparr>))
          else Continue ((enqueue_page clock found st)\<lparr>currentUrl := None\<rparr>))"

text \<open>
  The \<open>while (currentUrl)\<close> loop. It may run forever; then the walk has no result
  (\<open>None\<close>).
\<close>

partial_function (option) listing_walk ::
  "config \<Rightarrow> (nat \<Rightarrow> string \<Rightarrow> fetch_result) \<Rightarrow> (nat \<Rightarrow> nat \<Rightarrow> timestamp) \<Rightarrow> walk_state \<Rightarrow>
     walk_state option"
where
  "listing_walk cfg site clock st =
     (if \<not> truthy (currentUrl st) then Some st
      else
        (case loop_pass cfg site clock st of
           Stop st' \<Rightarrow> Some st'
         | Continue st' \<Rightarrow> listing_walk cfg site clock st'))"

definition initial_state :: "string \<Rightarrow> file_handler \<Rightarrow> job_queue \<Rightarrow> walk_state" where
  "initial_state startUrl fh q =
     \<lparr>currentUrl = Some startUrl, pageNum = 1, existingIds = getExistingIds fh,
      queue = q, fetches = 0, pagesCompleted = []\<rparr>"

definition scrapeJobListings ::
  "config \<Rightarrow> (nat \<Rightarrow> string \<Rightarrow> fetch_result) \<Rightarrow> (nat \<Rightarrow> nat \<Rightarrow> timestamp) \<Rightarrow> string \<Rightarrow>
     file_handler \<Rightarrow> job_queue \<Rightarrow> walk_state option" where
  "scrapeJobListings cfg site clock startUrl fh q =
     listing_walk cfg site clock (initial_state startUrl fh q)"




fun page_error :: "fetch_result \<Rightarrow> bool" where
  "page_error (Threw msg) = True"
| "page_error (ParseThrew found msg) = True"
| "page_error (Loaded found pg) = False"






section \<open>Concrete runs\<close>

text \<open>Inputs on which the theorems below are evaluated.\<close>

definition job_a :: job where
  "job_a = \<lparr>job_id = ''1001'', url = ''https://www.jobthai.com/th/job/1001'', props = [],
            addedAt = None, attempts = 0, startedAt = None, completedAt = None,
            result = None, error = None, failedAt = None\<rparr>"

definition job_b :: job where
  "job_b = \<lparr>job_id = ''1002'', url = ''https://www.jobthai.com/th/job/1002'', props = [],
            addedAt = None, attempts = 0, startedAt = None, completedAt = None,
            result = None, error = None, failedAt = None\<rparr>"

definition cfg_default :: config where
  "cfg_default = \<lparr>workers = 3, outputFile = ''./output/jobs.json'', delay = Some (1000, 3000),
       maxPages = 0, retryAttempts = 3\<rparr>"

definition cfg_retry5 :: config where
  "cfg_retry5 = \<lparr>workers = 3, outputFile = ''./output/jobs.json'', delay = Some (1000, 3000),
       maxPages = 0, retryAttempts = 5\<rparr>"

definition cfg_retry1 :: config where
  "cfg_retry1 = \<lparr>workers = 3, outputFile = ''./output/jobs.json'', delay = Some (1000, 3000),
       maxPages = 0, retryAttempts = 1\<rparr>"

definition cfg_cap3 :: config where
  "cfg_cap3 = \<lparr>workers = 3, outputFile = ''./output/jobs.json'', delay = Some (1000, 3000),
       maxPages = 3, retryAttempts = 3\<rparr>"

text \<open>One job that is dequeued three times and fails every time.\<close>

definition always_failing :: "(timestamp \<times> queue_op) list" where
  "always_failing =
     [(10, Add job_a),
      (11, GetNext), (12, worker_report job_a (Thrown ''Navigation timeout'')),
      (13, GetNext), (14, worker_report job_a (Thrown ''Navigation timeout'')),
      (15, GetNext), (16, worker_report job_a (Thrown ''Navigation timeout''))]"

definition all_retryable :: "(timestamp \<times> queue_op) list \<Rightarrow> bool" where
  "all_retryable ops = list_all (\<lambda>(now, op). retryable op) ops"

definition failed_a :: job where
  "failed_a = job_a\<lparr>addedAt := Some 10, attempts := 3, startedAt := Some 15,
                    error := Some ''Navigation timeout'', failedAt := Some 16\<rparr>"


text \<open>A queue with one job pending and one in processing, and a clock that advances.\<close>

definition ticking :: "nat \<Rightarrow> timestamp" where
  "ticking i = 40 + i"

definition two_jobs :: job_queue where
  "two_jobs = JobQueue\<lparr>pending := [job_a], processing := [job_b\<lparr>attempts := 1\<rparr>]\<rparr>"

text \<open>A site whose every page offers a next page, one that never loads, and one that
  fails five times before it serves a last page.\<close>

definition next_page :: pagination where
  "next_page = \<lparr>currentPage = 1, totalPages = 1, hasNext = True,
                nextPageUrl = Some ''https://www.jobthai.com/th/jobs?page=2''\<rparr>"

definition last_page :: pagination where
  "last_page = \<lparr>currentPage = 1, totalPages = 1, hasNext = False, nextPageUrl = None\<rparr>"

definition endless_site :: "nat \<Rightarrow> string \<Rightarrow> fetch_result" where
  "endless_site k u = Loaded [] next_page"

definition dead_site :: "nat \<Rightarrow> string \<Rightarrow> fetch_result" where
  "dead_site k u = Threw ''Navigation timeout''"

definition flaky_site :: "nat \<Rightarrow> string \<Rightarrow> fetch_result" where
  "flaky_site k u = (if k < 5 then Threw ''Navigation timeout'' else Loaded [] last_page)"

definition no_clock :: "nat \<Rightarrow> nat \<Rightarrow> timestamp" where
  "no_clock k i = 0"

definition start_url :: string where
  "start_url = ''https://www.jobthai.com/th/jobs''"

text \<open>
  A site of two pages, each determined by its URL: the start page lists two jobs and
  links to the second page, which lists one more job, and one already seen, and has no
  next page.
\<close>

definition second_url :: string where
  "second_url = ''https://www.jobthai.com/th/jobs?page=2''"

definition job_c :: job where
  "job_c = \<lparr>job_id = ''1003'', url = ''https://www.jobthai.com/th/job/1003'', props = [],
            addedAt = None, attempts = 0, startedAt = None, completedAt = None,
            result = None, error = None, failedAt = None\<rparr>"

definition two_page_site :: "nat \<Rightarrow> string \<Rightarrow> fetch_result" where
  "two_page_site k u =
     (if u = start_url
      then Loaded [job_a, job_b]
             \<lparr>currentPage = 1, totalPages = 2, hasNext = True, nextPageUrl = Some second_url\<rparr>
      else Loaded [job_b, job_c]
             \<lparr>currentPage = 2, totalPages = 2, hasNext = False, nextPageUrl = None\<rparr>)"


text \<open>A store with one record, and an empty disk.\<close>

definition record_a :: job_data where
  "record_a = \<lparr>data_id = ''1001'', title = ''Developer'', details = []\<rparr>"


definition store_a :: file_handler where
  "store_a = \<lparr>outputPath = ''./output/jobs.json'', jobs = [record_a], isInitialized = True\<rparr>"

definition empty_disk :: disk where
  "empty_disk = \<lparr>files = Map.empty, written = []\<rparr>"






section \<open>Properties of the job queue\<close>

subsection \<open>Auxiliary facts\<close>

lemmas queue_eval =
  add_def exists_def some_def getNext_def fail_def complete_def checkDone_def
  emit_def splice1_def JobQueue_def JobThaiScraper_def Let_def

lemma some_iff: "some (\<lambda>j. job_id j = i) xs \<longleftrightarrow> i \<in> job_id ` set xs"
  by (auto simp: some_def list_ex_iff)

lemma exists_iff: "exists i q \<longleftrightarrow> i \<in> known_ids q"
  by (auto simp: exists_def some_iff known_ids_def all_jobs_def)

lemma emit_simps [simp]:
  "pending (emit e q) = pending q" "processing (emit e q) = processing q"
  "completed (emit e q) = completed q" "failed (emit e q) = failed q"
  "paused (emit e q) = paused q" "emitted (emit e q) = emitted q @ [e]"
  by (simp_all add: emit_def)

lemma checkDone_simps [simp]:
  "pending (checkDone q) = pending q" "processing (checkDone q) = processing q"
  "completed (checkDone q) = completed q" "failed (checkDone q) = failed q"
  "paused (checkDone q) = paused q"
  by (simp_all add: checkDone_def)

lemma all_jobs_emit [simp]: "all_jobs (emit e q) = all_jobs q"
  by (simp add: all_jobs_def)

lemma all_jobs_checkDone [simp]: "all_jobs (checkDone q) = all_jobs q"
  by (simp add: all_jobs_def)

text \<open>\<open>findIndex\<close> returns the position of the first element that satisfies the test.\<close>

lemma findIndex_SomeD:
  "findIndex P xs = Some k \<Longrightarrow>
     \<exists>ys zs. xs = ys @ (xs ! k) # zs \<and> length ys = k \<and> P (xs ! k) \<and> (\<forall>y\<in>set ys. \<not> P y)"
proof (induction xs arbitrary: k)
  case Nil
  then show ?case by simp
next
  case (Cons x xs)
  show ?case
  proof (cases "P x")
    case True
    with Cons.prems have "k = 0" by simp
    with True show ?thesis by (intro exI [of _ "[]"] exI [of _ xs]) simp
  next
    case False
    with Cons.prems obtain k' where k': "findIndex P xs = Some k'" "k = Suc k'"
      by auto
    from Cons.IH [OF k'(1)] obtain ys zs where
      "xs = ys @ (xs ! k') # zs" "length ys = k'" "P (xs ! k')" "\<forall>y\<in>set ys. \<not> P y"
      by blast
    with False k'(2) show ?thesis
      by (intro exI [of _ "x # ys"] exI [of _ zs]) auto
  qed
qed


lemma splice1_mid: "splice1 (length ys) (ys @ j # zs) = ys @ zs"
  by (simp add: splice1_def)

text \<open>The two outcomes of each operation, with the moved job made explicit.\<close>

lemma add_cases:
  "(job_id j \<in> known_ids q \<and> add now j q = (False, q)) \<or>
   (job_id j \<notin> known_ids q \<and>
    add now j q =
      (True, emit (JobAdded j)
               (q\<lparr>pending := pending q @ [j\<lparr>addedAt := Some now, attempts := 0\<rparr>]\<rparr>)))"
  by (simp add: add_def exists_iff)

lemma add_exists_after: "exists (job_id j) (snd (add now j q))"
  by (simp add: add_def emit_def exists_def some_def)

lemma getNext_cases:
  "getNext now q = (None, q) \<or>
   (\<exists>j rest. pending q = j # rest \<and>
      getNext now q =
        (Some (j\<lparr>startedAt := Some now, attempts := attempts j + 1\<rparr>),
         emit (JobStarted (j\<lparr>startedAt := Some now, attempts := attempts j + 1\<rparr>))
           (q\<lparr>pending := rest,
              processing := processing q @ [j\<lparr>startedAt := Some now, attempts := attempts j + 1\<rparr>]\<rparr>)))"
  by (cases "pending q") (simp_all add: getNext_def Let_def)

lemma complete_cases:
  "complete now i r q = (False, q) \<or>
   (\<exists>ys j zs. processing q = ys @ j # zs \<and> job_id j = i \<and>
      complete now i r q =
        (True, checkDone (emit (JobCompleted (j\<lparr>completedAt := Some now, result := r\<rparr>))
                 (q\<lparr>processing := ys @ zs,
                    completed := completed q @ [j\<lparr>completedAt := Some now, result := r\<rparr>]\<rparr>))))"
proof (cases "findIndex (\<lambda>j. job_id j = i) (processing q)")
  case None
  then show ?thesis by (simp add: complete_def)
next
  case (Some k)
  from findIndex_SomeD [OF Some] obtain ys zs where
    s: "processing q = ys @ (processing q ! k) # zs" "length ys = k" "job_id (processing q ! k) = i"
    by blast
  have "splice1 k (processing q) = ys @ zs"
    using splice1_mid [of ys "processing q ! k" zs] s(1,2) by simp
  with Some s show ?thesis
    by (simp add: complete_def Let_def) blast
qed

lemma fail_cases:
  "fail now i m b q = (False, q) \<or>
   (\<exists>ys j zs. processing q = ys @ j # zs \<and> job_id j = i \<and>
      fail now i m b q =
        (True, checkDone
           (if b \<and> attempts j < 3
            then emit (JobRetry (j\<lparr>error := Some m, failedAt := Some now\<rparr>))
                   (q\<lparr>processing := ys @ zs,
                      pending := j\<lparr>error := Some m, failedAt := Some now\<rparr> # pending q\<rparr>)
            else emit (JobFailed (j\<lparr>error := Some m, failedAt := Some now\<rparr>))
                   (q\<lparr>processing := ys @ zs,
                      failed := failed q @ [j\<lparr>error := Some m, failedAt := Some now\<rparr>]\<rparr>))))"
proof (cases "findIndex (\<lambda>j. job_id j = i) (processing q)")
  case None
  then show ?thesis by (simp add: fail_def)
next
  case (Some k)
  from findIndex_SomeD [OF Some] obtain ys zs where
    s: "processing q = ys @ (processing q ! k) # zs" "length ys = k" "job_id (processing q ! k) = i"
    by blast
  have "splice1 k (processing q) = ys @ zs"
    using splice1_mid [of ys "processing q ! k" zs] s(1,2) by simp
  with Some s show ?thesis
    by (simp add: fail_def Let_def) blast
qed

lemma retryFailed_loop_eq:
  "retryFailed_loop js q = q\<lparr>pending := pending q @ map reset_job js\<rparr>"
  by (induction js arbitrary: q) simp_all

subsection \<open>Enqueueing\<close>

text \<open>
  C5. An id present in any of the four partitions is rejected: \<open>add\<close> returns \<open>false\<close> and
  the queue is unchanged. An id present in none is appended to \<open>pending\<close> with
  \<open>attempts = 0\<close>, the other three partitions stay as they are, and \<open>add\<close> returns
  \<open>true\<close>. Adding the same job a second time, right after the first call, returns
  \<open>false\<close> and changes nothing.
\<close>

theorem add_dedup:
  "(job_id j \<in> known_ids q \<longrightarrow> add now j q = (False, q)) \<and>
   (job_id j \<notin> known_ids q \<longrightarrow>
      fst (add now j q) = True \<and>
      pending (snd (add now j q)) = pending q @ [j\<lparr>addedAt := Some now, attempts := 0\<rparr>] \<and>
      attempts (last (pending (snd (add now j q)))) = 0 \<and>
      processing (snd (add now j q)) = processing q \<and>
      completed (snd (add now j q)) = completed q \<and>
      failed (snd (add now j q)) = failed q) \<and>
   add now' j (snd (add now j q)) = (False, snd (add now j q))"
proof -
  have again: "add now' j (snd (add now j q)) = (False, snd (add now j q))"
    using add_exists_after [of j now q] by (simp add: add_def [of now'])
  show ?thesis
    using add_cases [of j q now] again by auto
qed

theorem add_dedup_witness:
  "job_id (job_b\<lparr>url := ''other''\<rparr>) \<in> known_ids two_jobs \<and>
   add 7 (job_b\<lparr>url := ''other''\<rparr>) two_jobs = (False, two_jobs) \<and>
   job_id job_b \<notin> known_ids JobQueue \<and>
   fst (add 7 job_b JobQueue) = True \<and>
   pending (snd (add 7 job_b JobQueue)) = [job_b\<lparr>addedAt := Some 7\<rparr>] \<and>
   add 8 job_b (snd (add 7 job_b JobQueue)) = (False, snd (add 7 job_b JobQueue))"
proof -
  have k: "job_id (job_b\<lparr>url := ''other''\<rparr>) \<in> known_ids two_jobs"
    by (simp add: known_ids_def all_jobs_def two_jobs_def JobQueue_def job_a_def job_b_def)
  have f: "job_id job_b \<notin> known_ids JobQueue"
    by (simp add: known_ids_def all_jobs_def JobQueue_def)
  have z: "job_b\<lparr>addedAt := Some 7, attempts := 0\<rparr> = job_b\<lparr>addedAt := Some 7\<rparr>"
    by (simp add: job_b_def)
  show ?thesis
    using add_dedup [of "job_b\<lparr>url := ''other''\<rparr>" two_jobs 7 8]
      add_dedup [of job_b JobQueue 7 8] k f z
    by (simp add: JobQueue_def)
qed

subsection \<open>Dequeueing\<close>

text \<open>
  C8. \<open>getNext\<close> returns nothing, and leaves the queue as it is, when the queue is paused
  or \<open>pending\<close> is empty. Otherwise it takes the head of \<open>pending\<close>, adds one to its
  \<open>attempts\<close>, stamps \<open>startedAt\<close>, appends it to \<open>processing\<close> and returns it; the rest of
  \<open>pending\<close> keeps its order, \<open>completed\<close> and \<open>failed\<close> are untouched.
\<close>

theorem getNext_spec:
  "(paused q \<or> pending q = [] \<longrightarrow> getNext now q = (None, q)) \<and>
   (\<not> paused q \<and> pending q = j # rest \<longrightarrow>
      fst (getNext now q) = Some (j\<lparr>startedAt := Some now, attempts := attempts j + 1\<rparr>) \<and>
      pending (snd (getNext now q)) = rest \<and>
      processing (snd (getNext now q)) =
        processing q @ [j\<lparr>startedAt := Some now, attempts := attempts j + 1\<rparr>] \<and>
      completed (snd (getNext now q)) = completed q \<and>
      failed (snd (getNext now q)) = failed q)"
  by (simp add: getNext_def emit_def Let_def)

theorem getNext_spec_witness:
  "\<not> paused two_jobs \<and> pending two_jobs = job_a # [] \<and>
   fst (getNext 20 two_jobs) = Some (job_a\<lparr>startedAt := Some 20, attempts := 1\<rparr>) \<and>
   pending (snd (getNext 20 two_jobs)) = [] \<and>
   processing (snd (getNext 20 two_jobs)) =
     [job_b\<lparr>attempts := 1\<rparr>, job_a\<lparr>startedAt := Some 20, attempts := 1\<rparr>] \<and>
   paused (pause two_jobs) \<and> getNext 20 (pause two_jobs) = (None, pause two_jobs)"
proof -
  have h: "\<not> paused two_jobs" "pending two_jobs = job_a # []" "attempts job_a = 0"
    "processing two_jobs = [job_b\<lparr>attempts := 1\<rparr>]"
    by (simp_all add: two_jobs_def JobQueue_def job_a_def)
  have p: "paused (pause two_jobs)"
    by (simp add: pause_def)
  show ?thesis
    using getNext_spec [of two_jobs 20 job_a "[]"] getNext_spec [of "pause two_jobs" 20 job_a "[]"] h p
    by simp
qed

subsection \<open>Failure and retry\<close>








subsection \<open>Retrying the failed partition\<close>

text \<open>
  C10. \<open>retryFailed\<close> empties \<open>failed\<close>, appends its jobs to the back of \<open>pending\<close> in
  their order, each with \<open>attempts\<close> reset to 0 and without \<open>error\<close> and \<open>failedAt\<close>, and
  returns how many it moved. So a job that was in \<open>failed\<close> is in \<open>pending\<close> again:
  under this operation the failed partition is not terminal.
\<close>

theorem retryFailed_spec:
  "retryFailed q =
     (length (failed q), q\<lparr>failed := [], pending := pending q @ map reset_job (failed q)\<rparr>) \<and>
   (\<forall>j. attempts (reset_job j) = 0 \<and> error (reset_job j) = None \<and>
        failedAt (reset_job j) = None \<and> job_id (reset_job j) = job_id j) \<and>
   (j \<in> set (failed q) \<longrightarrow>
      reset_job j \<in> set (pending (snd (retryFailed q))) \<and> failed (snd (retryFailed q)) = [])"
  by (simp add: retryFailed_def retryFailed_loop_eq reset_job_def Let_def)

theorem retryFailed_spec_witness:
  "failed_a \<in> set (failed (two_jobs\<lparr>failed := [failed_a]\<rparr>)) \<and>
   retryFailed (two_jobs\<lparr>failed := [failed_a]\<rparr>) =
     (1, two_jobs\<lparr>failed := [], pending := [job_a, failed_a\<lparr>attempts := 0, error := None, failedAt := None\<rparr>]\<rparr>)"
proof -
  have h: "failed_a \<in> set (failed (two_jobs\<lparr>failed := [failed_a]\<rparr>))"
    by simp
  have p: "pending two_jobs = [job_a]"
    by (simp add: two_jobs_def JobQueue_def)
  show ?thesis
    using retryFailed_spec [of "two_jobs\<lparr>failed := [failed_a]\<rparr>" failed_a] h p
    by (simp add: reset_job_def)
qed


subsection \<open>The partition invariant\<close>

text \<open>
  Every operation other than \<open>add\<close> moves a job between partitions, so the multiset of
  ids stays the same; \<open>add\<close> inserts an id only when it is new.
\<close>

lemma partition_inv_ids: "partition_inv q \<longleftrightarrow> distinct (ids q)"
  by (simp add: partition_inv_def ids_def)

lemma known_ids_ids: "known_ids q = set (ids q)"
  by (simp add: known_ids_def ids_def)

lemma distinct_mset_eq: "mset xs = mset ys \<Longrightarrow> distinct ys \<Longrightarrow> distinct xs"
  by (metis mset_eq_imp_distinct_iff)

lemma mset_ids_add:
  "mset (ids (snd (add now j q))) =
     (if job_id j \<in> known_ids q then mset (ids q) else add_mset (job_id j) (mset (ids q)))"
  using add_cases [of j q now]
  by (auto simp: ids_def all_jobs_def)

lemma mset_ids_getNext: "mset (ids (snd (getNext now q))) = mset (ids q)"
  using getNext_cases [of now q]
  by (auto simp: ids_def all_jobs_def)

lemma mset_ids_complete: "mset (ids (snd (complete now i r q))) = mset (ids q)"
  using complete_cases [of now i r q]
  by (auto simp: ids_def all_jobs_def)

lemma mset_ids_fail: "mset (ids (snd (fail now i m b q))) = mset (ids q)"
  using fail_cases [of now i m b q]
  by (auto simp: ids_def all_jobs_def)

lemma partition_inv_add: "partition_inv q \<Longrightarrow> partition_inv (snd (add now j q))"
proof -
  assume inv: "partition_inv q"
  show ?thesis
  proof (cases "job_id j \<in> known_ids q")
    case True
    then have "mset (ids (snd (add now j q))) = mset (ids q)"
      by (simp add: mset_ids_add)
    then show ?thesis
      using inv unfolding partition_inv_ids by (rule distinct_mset_eq)
  next
    case False
    then have "mset (ids (snd (add now j q))) = mset (job_id j # ids q)"
      by (simp add: mset_ids_add)
    moreover have "distinct (job_id j # ids q)"
      using inv False by (simp add: partition_inv_ids known_ids_ids)
    ultimately show ?thesis
      unfolding partition_inv_ids by (rule distinct_mset_eq)
  qed
qed

lemma known_ids_add: "known_ids (snd (add now j q)) = insert (job_id j) (known_ids q)"
proof -
  have "set_mset (mset (ids (snd (add now j q)))) = insert (job_id j) (set (ids q))"
    unfolding mset_ids_add by (auto simp: known_ids_ids)
  then show ?thesis by (simp add: known_ids_ids)
qed

lemma partition_inv_addBulk_loop:
  "partition_inv q \<Longrightarrow> partition_inv (snd (addBulk_loop clock js i n q))"
proof (induction js arbitrary: i n q)
  case Nil
  then show ?case by simp
next
  case (Cons j js)
  from Cons.prems have "partition_inv (snd (add (clock i) j q))"
    by (rule partition_inv_add)
  then show ?case
    using Cons.IH by (cases "add (clock i) j q") (auto split: bool.splits)
qed

lemma known_ids_addBulk_loop:
  "known_ids (snd (addBulk_loop clock js i n q)) = job_id ` set js \<union> known_ids q"
proof (induction js arbitrary: i n q)
  case Nil
  then show ?case by simp
next
  case (Cons j js)
  show ?case
    using Cons.IH known_ids_add [of "clock i" j q]
    by (cases "add (clock i) j q") (auto split: bool.splits)
qed

lemma partition_inv_getNext: "partition_inv q \<Longrightarrow> partition_inv (snd (getNext now q))"
  unfolding partition_inv_ids using mset_ids_getNext by (rule distinct_mset_eq)

lemma known_ids_getNext: "known_ids (snd (getNext now q)) = known_ids q"
  unfolding known_ids_ids using mset_ids_getNext by (rule mset_eq_setD)

lemma partition_inv_complete: "partition_inv q \<Longrightarrow> partition_inv (snd (complete now i r q))"
  unfolding partition_inv_ids using mset_ids_complete by (rule distinct_mset_eq)

lemma known_ids_complete: "known_ids (snd (complete now i r q)) = known_ids q"
  unfolding known_ids_ids using mset_ids_complete by (rule mset_eq_setD)

lemma partition_inv_fail: "partition_inv q \<Longrightarrow> partition_inv (snd (fail now i m b q))"
  unfolding partition_inv_ids using mset_ids_fail by (rule distinct_mset_eq)

lemma known_ids_fail: "known_ids (snd (fail now i m b q)) = known_ids q"
  unfolding known_ids_ids using mset_ids_fail by (rule mset_eq_setD)

lemma partition_inv_apply_op: "partition_inv q \<Longrightarrow> partition_inv (apply_op now op q)"
  by (cases op)
     (simp_all add: partition_inv_add addBulk_def partition_inv_addBulk_loop partition_inv_getNext
        partition_inv_complete partition_inv_fail,
      simp_all add: partition_inv_def all_jobs_def pause_def resume_def)

lemma partition_inv_run: "partition_inv q \<Longrightarrow> partition_inv (run ops q)"
  by (induction ops q rule: run.induct) (simp_all add: partition_inv_apply_op)

lemma partition_inv_init: "partition_inv JobQueue"
  by (simp add: partition_inv_def all_jobs_def JobQueue_def)

text \<open>The two operations outside the runs keep the invariant as well.\<close>

lemma partition_inv_retryFailed: "partition_inv q \<Longrightarrow> partition_inv (snd (retryFailed q))"
proof -
  have "job_id \<circ> reset_job = job_id"
    by (rule ext) (simp add: reset_job_def)
  then have "mset (ids (snd (retryFailed q))) = mset (ids q)"
    by (simp add: retryFailed_def retryFailed_loop_eq Let_def ids_def all_jobs_def)
  then show "partition_inv q \<Longrightarrow> partition_inv (snd (retryFailed q))"
    unfolding partition_inv_ids by (rule distinct_mset_eq)
qed

lemma partition_inv_clear: "partition_inv (clear q)"
  by (simp add: partition_inv_def all_jobs_def clear_def)

lemma partition_inv_disjoint:
  assumes "partition_inv q"
  shows "job_id ` set (pending q) \<inter> job_id ` set (processing q) = {} \<and>
         job_id ` set (pending q) \<inter> job_id ` set (completed q) = {} \<and>
         job_id ` set (pending q) \<inter> job_id ` set (failed q) = {} \<and>
         job_id ` set (processing q) \<inter> job_id ` set (completed q) = {} \<and>
         job_id ` set (processing q) \<inter> job_id ` set (failed q) = {} \<and>
         job_id ` set (completed q) \<inter> job_id ` set (failed q) = {}"
  using assms unfolding partition_inv_def all_jobs_def
  by (simp add: Int_Un_distrib Int_Un_distrib2 Int_commute)

lemma partition_inv_once:
  assumes "partition_inv q" and "i \<in> known_ids q"
  shows "count_list (ids q) i = 1"
  using assms unfolding partition_inv_ids known_ids_ids
  by (metis distinct_count_atmost_1 count_mset)

text \<open>
  C2. The queue starts with the invariant, and \<open>add\<close>, \<open>addBulk\<close>, \<open>getNext\<close>, \<open>complete\<close>
  and \<open>fail\<close> each preserve it, so it holds in every state a run reaches. Under the
  invariant the four partitions are pairwise disjoint and each known id occurs exactly
  once in them. The known ids never shrink: \<open>add\<close> and \<open>addBulk\<close> add the ids they are
  given, the other three operations keep the set as it is.
\<close>

theorem partition_invariant:
  "partition_inv JobQueue \<and>
   partition_inv (run ops JobQueue) \<and>
   (partition_inv q \<longrightarrow>
      partition_inv (snd (add now j q)) \<and>
      partition_inv (snd (addBulk clock js q)) \<and>
      partition_inv (snd (getNext now q)) \<and>
      partition_inv (snd (complete now jobId res q)) \<and>
      partition_inv (snd (fail now jobId msg retry q)) \<and>
      job_id ` set (pending q) \<inter> job_id ` set (processing q) = {} \<and>
      job_id ` set (pending q) \<inter> job_id ` set (completed q) = {} \<and>
      job_id ` set (pending q) \<inter> job_id ` set (failed q) = {} \<and>
      job_id ` set (processing q) \<inter> job_id ` set (completed q) = {} \<and>
      job_id ` set (processing q) \<inter> job_id ` set (failed q) = {} \<and>
      job_id ` set (completed q) \<inter> job_id ` set (failed q) = {} \<and>
      (\<forall>i\<in>known_ids q. count_list (ids q) i = 1)) \<and>
   known_ids (snd (add now j q)) = insert (job_id j) (known_ids q) \<and>
   known_ids (snd (addBulk clock js q)) = job_id ` set js \<union> known_ids q \<and>
   known_ids (snd (getNext now q)) = known_ids q \<and>
   known_ids (snd (complete now jobId res q)) = known_ids q \<and>
   known_ids (snd (fail now jobId msg retry q)) = known_ids q"
proof -
  have reach: "partition_inv (run ops JobQueue)"
    using partition_inv_init by (rule partition_inv_run)
  have step: "partition_inv (snd (add now j q))" "partition_inv (snd (addBulk clock js q))"
    "partition_inv (snd (getNext now q))" "partition_inv (snd (complete now jobId res q))"
    "partition_inv (snd (fail now jobId msg retry q))" if "partition_inv q"
    using that
    by (simp_all add: partition_inv_add addBulk_def partition_inv_addBulk_loop
        partition_inv_getNext partition_inv_complete partition_inv_fail)
  have once: "\<forall>i\<in>known_ids q. count_list (ids q) i = 1" if "partition_inv q"
    using that partition_inv_once by blast
  have known: "known_ids (snd (addBulk clock js q)) = job_id ` set js \<union> known_ids q"
    by (simp add: addBulk_def known_ids_addBulk_loop)
  show ?thesis
    unfolding known known_ids_add known_ids_getNext known_ids_complete known_ids_fail
    using partition_inv_init reach step once partition_inv_disjoint [of q]
    by (intro conjI impI) simp_all
qed


theorem partition_invariant_witness:
  "partition_inv two_jobs \<and>
   partition_inv (snd (add 40 job_a two_jobs)) \<and>
   partition_inv (snd (addBulk ticking [job_a, job_b, job_a] two_jobs)) \<and>
   partition_inv (snd (getNext 40 two_jobs)) \<and>
   partition_inv (snd (complete 40 ''1002'' None two_jobs)) \<and>
   partition_inv (snd (fail 40 ''1002'' ''boom'' True two_jobs)) \<and>
   job_id ` set (pending two_jobs) \<inter> job_id ` set (processing two_jobs) = {} \<and>
   ''1002'' \<in> known_ids two_jobs \<and>
   count_list (ids two_jobs) ''1002'' = 1"
proof -
  have h: "partition_inv two_jobs"
    by (simp add: partition_inv_def all_jobs_def two_jobs_def JobQueue_def job_a_def job_b_def)
  have k: "''1002'' \<in> known_ids two_jobs"
    by (simp add: known_ids_def all_jobs_def two_jobs_def JobQueue_def job_b_def)
  note w = partition_invariant
      [where ops = "[]" and q = two_jobs and now = 40 and j = job_a and clock = ticking
         and js = "[job_a, job_b, job_a]" and jobId = "''1002''" and res = None
         and msg = "''boom''" and retry = True]
  note c = mp [OF w [THEN conjunct2, THEN conjunct2, THEN conjunct1] h]
  note c1 = c [THEN conjunct1]
  note c2 = c [THEN conjunct2, THEN conjunct1]
  note c3 = c [THEN conjunct2, THEN conjunct2, THEN conjunct1]
  note c4 = c [THEN conjunct2, THEN conjunct2, THEN conjunct2, THEN conjunct1]
  note c5 = c [THEN conjunct2, THEN conjunct2, THEN conjunct2, THEN conjunct2, THEN conjunct1]
  note c6 = c [THEN conjunct2, THEN conjunct2, THEN conjunct2, THEN conjunct2, THEN conjunct2,
      THEN conjunct1]
  note once = c [THEN conjunct2, THEN conjunct2, THEN conjunct2, THEN conjunct2, THEN conjunct2,
      THEN conjunct2, THEN conjunct2, THEN conjunct2, THEN conjunct2, THEN conjunct2,
      THEN conjunct2]
  from once k have one: "count_list (ids two_jobs) ''1002'' = 1" ..
  show ?thesis
    by (rule conjI [OF h conjI [OF c1 conjI [OF c2 conjI [OF c3 conjI [OF c4 conjI [OF c5
          conjI [OF c6 conjI [OF k one]]]]]]]])
qed

subsection \<open>The retry bound\<close>

text \<open>
  Along a run in which every \<open>fail\<close> is called with \<open>retry = true\<close>, the \<open>attempts\<close> of a
  job equal the number of times \<open>getNext\<close> handed its id out; they stay below 3 in
  \<open>pending\<close>, do not exceed 3 in \<open>processing\<close>, and are exactly 3 in \<open>failed\<close>.
\<close>

lemma starts_emit [simp]:
  "starts i (emit e q) = (if is_start i e then Suc (starts i q) else starts i q)"
  by (simp add: starts_def)

lemma starts_upd [simp]:
  "starts i (q\<lparr>pending := a\<rparr>) = starts i q"
  "starts i (q\<lparr>processing := b\<rparr>) = starts i q"
  "starts i (q\<lparr>completed := c\<rparr>) = starts i q"
  "starts i (q\<lparr>failed := d\<rparr>) = starts i q"
  "starts i (q\<lparr>paused := p\<rparr>) = starts i q"
  by (simp_all add: starts_def)

lemma starts_checkDone [simp]: "starts i (checkDone q) = starts i q"
  by (simp add: checkDone_def starts_def)

lemma retry_inv_init: "retry_inv JobQueue"
  by (simp add: retry_inv_def partition_inv_def all_jobs_def JobQueue_def starts_def)

lemma retry_inv_add: "retry_inv q \<Longrightarrow> retry_inv (snd (add now j q))"
proof -
  assume inv: "retry_inv q"
  then have p: "partition_inv (snd (add now j q))"
    by (simp add: retry_inv_def partition_inv_add)
  have k: "known_ids (snd (add now j q)) = insert (job_id j) (known_ids q)"
    by (rule known_ids_add)
  show ?thesis
    using add_cases [of j q now]
  proof (elim disjE conjE)
    assume "add now j q = (False, q)"
    with inv show ?thesis by simp
  next
    assume fresh: "job_id j \<notin> known_ids q"
      and eq: "add now j q = (True, emit (JobAdded j)
                 (q\<lparr>pending := pending q @ [j\<lparr>addedAt := Some now, attempts := 0\<rparr>]\<rparr>))"
    from inv fresh have z: "starts (job_id j) q = 0"
      by (simp add: retry_inv_def)
    show ?thesis
      unfolding retry_inv_def
      using p k inv z unfolding eq retry_inv_def by auto
  qed
qed

lemma retry_inv_addBulk_loop:
  "retry_inv q \<Longrightarrow> retry_inv (snd (addBulk_loop clock js i n q))"
proof (induction js arbitrary: i n q)
  case Nil
  then show ?case by simp
next
  case (Cons j js)
  from Cons.prems have "retry_inv (snd (add (clock i) j q))"
    by (rule retry_inv_add)
  then show ?case
    using Cons.IH by (cases "add (clock i) j q") (auto split: bool.splits)
qed

lemma retry_inv_getNext: "retry_inv q \<Longrightarrow> retry_inv (snd (getNext now q))"
proof -
  assume inv: "retry_inv q"
  then have p: "partition_inv (snd (getNext now q))"
    by (simp add: retry_inv_def partition_inv_getNext)
  have k: "known_ids (snd (getNext now q)) = known_ids q"
    by (rule known_ids_getNext)
  show ?thesis
    using getNext_cases [of now q]
  proof (elim disjE exE conjE)
    assume "getNext now q = (None, q)"
    with inv show ?thesis by simp
  next
    fix j rest
    assume pend: "pending q = j # rest"
      and eq: "getNext now q =
        (Some (j\<lparr>startedAt := Some now, attempts := attempts j + 1\<rparr>),
         emit (JobStarted (j\<lparr>startedAt := Some now, attempts := attempts j + 1\<rparr>))
           (q\<lparr>pending := rest,
              processing := processing q @ [j\<lparr>startedAt := Some now, attempts := attempts j + 1\<rparr>]\<rparr>))"
    from inv pend have d: "job_id j \<notin> job_id ` set rest"
      "job_id j \<notin> job_id ` set (processing q)" "job_id j \<notin> job_id ` set (failed q)"
      by (auto simp: retry_inv_def partition_inv_def all_jobs_def)
    from inv pend have kn: "job_id j \<in> known_ids q"
      by (simp add: known_ids_def all_jobs_def)
    from inv pend have a: "attempts j < 3" "starts (job_id j) q = attempts j"
      by (simp_all add: retry_inv_def)
    show ?thesis
      unfolding retry_inv_def
      using p k inv d kn a pend unfolding eq retry_inv_def
      by (auto simp: image_iff)
  qed
qed

lemma retry_inv_complete: "retry_inv q \<Longrightarrow> retry_inv (snd (complete now i r q))"
proof -
  assume inv: "retry_inv q"
  then have p: "partition_inv (snd (complete now i r q))"
    by (simp add: retry_inv_def partition_inv_complete)
  have k: "known_ids (snd (complete now i r q)) = known_ids q"
    by (rule known_ids_complete)
  show ?thesis
    using complete_cases [of now i r q]
  proof (elim disjE exE conjE)
    assume "complete now i r q = (False, q)"
    with inv show ?thesis by simp
  next
    fix ys j zs
    assume pr: "processing q = ys @ j # zs"
      and eq: "complete now i r q =
        (True, checkDone (emit (JobCompleted (j\<lparr>completedAt := Some now, result := r\<rparr>))
                 (q\<lparr>processing := ys @ zs,
                    completed := completed q @ [j\<lparr>completedAt := Some now, result := r\<rparr>]\<rparr>)))"
    show ?thesis
      unfolding retry_inv_def
      using p k inv pr unfolding eq retry_inv_def
      by auto
  qed
qed

lemma retry_inv_fail: "retry_inv q \<Longrightarrow> retry_inv (snd (fail now i m True q))"
proof -
  assume inv: "retry_inv q"
  then have p: "partition_inv (snd (fail now i m True q))"
    by (simp add: retry_inv_def partition_inv_fail)
  have k: "known_ids (snd (fail now i m True q)) = known_ids q"
    by (rule known_ids_fail)
  show ?thesis
    using fail_cases [of now i m True q]
  proof (elim disjE exE conjE)
    assume "fail now i m True q = (False, q)"
    with inv show ?thesis by simp
  next
    fix ys j zs
    assume pr: "processing q = ys @ j # zs"
      and eq: "fail now i m True q =
        (True, checkDone
           (if True \<and> attempts j < 3
            then emit (JobRetry (j\<lparr>error := Some m, failedAt := Some now\<rparr>))
                   (q\<lparr>processing := ys @ zs,
                      pending := j\<lparr>error := Some m, failedAt := Some now\<rparr> # pending q\<rparr>)
            else emit (JobFailed (j\<lparr>error := Some m, failedAt := Some now\<rparr>))
                   (q\<lparr>processing := ys @ zs,
                      failed := failed q @ [j\<lparr>error := Some m, failedAt := Some now\<rparr>]\<rparr>)))"
    from inv pr have a: "attempts j \<le> 3" "starts (job_id j) q = attempts j"
      by (simp_all add: retry_inv_def)
    show ?thesis
      unfolding retry_inv_def
      using p k inv pr a unfolding eq retry_inv_def
      by auto
  qed
qed

lemma retry_inv_apply_op: "retry_inv q \<Longrightarrow> retryable op \<Longrightarrow> retry_inv (apply_op now op q)"
proof (cases op)
  case Pause
  assume "retry_inv q"
  then show ?thesis
    unfolding Pause
    by (simp add: pause_def retry_inv_def partition_inv_def all_jobs_def known_ids_def)
next
  case Resume
  assume "retry_inv q"
  then show ?thesis
    unfolding Resume
    by (simp add: resume_def retry_inv_def partition_inv_def all_jobs_def known_ids_def)
qed (simp_all add: retry_inv_add addBulk_def retry_inv_addBulk_loop retry_inv_getNext
       retry_inv_complete retry_inv_fail)

lemma retry_inv_run: "retry_inv q \<Longrightarrow> all_retryable ops \<Longrightarrow> retry_inv (run ops q)"
  unfolding all_retryable_def
  by (induction ops q rule: run.induct) (simp_all add: retry_inv_apply_op)

text \<open>
  What the queue does, whatever \<open>retryAttempts\<close> is configured: in a run of \<open>add\<close>,
  \<open>addBulk\<close>, \<open>getNext\<close>, \<open>complete\<close>, \<open>fail\<close>, \<open>pause\<close> and \<open>resume\<close> from the new
  queue in which every \<open>fail\<close> has \<open>retry = true\<close>, a job in \<open>failed\<close> has been handed
  out by \<open>getNext\<close> exactly 3 times, and its \<open>attempts\<close> are 3.
\<close>

lemma failed_after_three_attempts:
  assumes "all_retryable ops"
    and "j \<in> set (failed (run ops (jobQueue (JobThaiScraper cfg))))"
  shows "attempts j = 3 \<and> starts (job_id j) (run ops (jobQueue (JobThaiScraper cfg))) = 3"
proof -
  have "retry_inv (run ops JobQueue)"
    using retry_inv_init assms(1) by (rule retry_inv_run)
  with assms(2) show ?thesis
    by (simp add: retry_inv_def JobThaiScraper_def)
qed

text \<open>
  C1. The specification has a job fail for good after exactly \<open>retryAttempts\<close> processing
  attempts, for every configured value. The queue of a scraper is created without its
  configuration and \<open>fail\<close> compares \<open>attempts\<close> with the constant 3: with
  \<open>retryAttempts = 5\<close> configured, a job whose every attempt fails (each reported with
  \<open>retry = true\<close>) is in \<open>failed\<close> after 3 processing attempts, not 5.
\<close>

theorem retry_limit_ignores_config:
  "all_retryable always_failing \<and>
   retryAttempts (config (JobThaiScraper cfg_retry5)) = 5 \<and>
   failed (run always_failing (jobQueue (JobThaiScraper cfg_retry5))) = [failed_a] \<and>
   job_id failed_a = ''1001'' \<and>
   attempts failed_a = 3 \<and>
   starts ''1001'' (run always_failing (jobQueue (JobThaiScraper cfg_retry5))) = 3"
proof (intro conjI)
  show "all_retryable always_failing"
    by (simp add: all_retryable_def always_failing_def)
  show "retryAttempts (config (JobThaiScraper cfg_retry5)) = 5"
    by (simp add: JobThaiScraper_def cfg_retry5_def)
  show "failed (run always_failing (jobQueue (JobThaiScraper cfg_retry5))) = [failed_a]"
    by (simp add: always_failing_def job_a_def failed_a_def queue_eval)
  show "job_id failed_a = ''1001''"
    by (simp add: failed_a_def job_a_def)
  show "attempts failed_a = 3"
    by (simp add: failed_a_def)
  show "starts ''1001'' (run always_failing (jobQueue (JobThaiScraper cfg_retry5))) = 3"
    by (simp add: always_failing_def job_a_def starts_def queue_eval)
qed

section \<open>Properties of the persistence store\<close>













lemma addJobs_loop_unique:
  "unique_ids js \<Longrightarrow> seen = set (map data_id js) \<Longrightarrow>
     unique_ids (fst (addJobs_loop new js seen n))"
proof (induction new arbitrary: js seen n)
  case Nil
  then show ?case by simp
next
  case (Cons r new)
  show ?case
  proof (cases "data_id r \<in> seen")
    case True
    with Cons show ?thesis by simp
  next
    case False
    have "unique_ids (js @ [r])"
      using Cons.prems False by (simp add: unique_ids_def)
    moreover have "insert (data_id r) seen = set (map data_id (js @ [r]))"
      using Cons.prems(2) by simp
    ultimately have "unique_ids (fst (addJobs_loop new (js @ [r]) (insert (data_id r) seen) (n + 1)))"
      by (rule Cons.IH)
    with False show ?thesis by simp
  qed
qed




section \<open>Properties of the backup\<close>

lemma replace_first_longer:
  "occurs_in pat s \<Longrightarrow> length pat < length rep \<Longrightarrow> length s < length (replace_first pat rep s)"
proof (induction s)
  case Nil
  then show ?case by simp
next
  case (Cons c cs)
  show ?case
  proof (cases "take (length pat) (c # cs) = pat")
    case True
    then have "length (take (length pat) (c # cs)) = length pat"
      by simp
    then have "length pat \<le> length (c # cs)"
      unfolding length_take by linarith
    with True Cons.prems(2) show ?thesis by simp
  next
    case False
    with Cons show ?thesis by simp
  qed
qed

lemma replace_first_absent: "\<not> occurs_in pat s \<Longrightarrow> replace_first pat rep s = s"
  by (induction s) auto

lemma backupPath_differs: "occurs_in ''.json'' path \<Longrightarrow> backupPath stamp path \<noteq> path"
proof -
  assume "occurs_in ''.json'' path"
  then have "length path < length (backupPath stamp path)"
    unfolding backupPath_def by (rule replace_first_longer) simp
  then show ?thesis by auto
qed

text \<open>
  C9, as amended. \<open>backup\<close> does nothing when there are no records. When there are
  records and the output path contains \<open>.json\<close>, it writes once, to the output path with
  its first \<open>.json\<close> replaced by \<open>-backup-\<close>, the timestamp and \<open>.json\<close>, a document whose
  metadata holds \<open>totalJobs\<close> and \<open>backupDate\<close> and nothing else, together with the
  records; that path differs from the output path, whose content stays as it was. The
  handler is only read.
\<close>

theorem backup_spec:
  "(jobs h = [] \<longrightarrow> backup stamp1 stamp2 h d = d) \<and>
   (jobs h \<noteq> [] \<and> occurs_in ''.json'' (outputPath h) \<longrightarrow>
      backup stamp1 stamp2 h d =
        writeFileSync (backupPath stamp1 (outputPath h))
          (Document [(''totalJobs'', JNum (length (jobs h))), (''backupDate'', JStr stamp2)]
                    (Some (jobs h))) d \<and>
      backupPath stamp1 (outputPath h) \<noteq> outputPath h \<and>
      files (backup stamp1 stamp2 h d) (outputPath h) = files d (outputPath h) \<and>
      written (backup stamp1 stamp2 h d) =
        written d @ [(backupPath stamp1 (outputPath h),
          Document [(''totalJobs'', JNum (length (jobs h))), (''backupDate'', JStr stamp2)]
                   (Some (jobs h)))])"
  using backupPath_differs [of "outputPath h" stamp1]
  by (auto simp: backup_def writeFileSync_def)

theorem backup_spec_witness:
  "jobs store_a \<noteq> [] \<and> occurs_in ''.json'' (outputPath store_a) \<and>
   backupPath ''2024-01-15T10:30:00.000Z'' (outputPath store_a) =
     ''./output/jobs-backup-2024-01-15_10-30-00-000.json'' \<and>
   files (backup ''2024-01-15T10:30:00.000Z'' ''2024-01-15T10:30:00.001Z'' store_a empty_disk)
     (outputPath store_a) = files empty_disk (outputPath store_a) \<and>
   jobs (store_a\<lparr>jobs := []\<rparr>) = [] \<and>
   backup ''2024-01-15T10:30:00.000Z'' ''2024-01-15T10:30:00.001Z'' (store_a\<lparr>jobs := []\<rparr>) empty_disk
     = empty_disk"
proof -
  have h: "jobs store_a \<noteq> [] \<and> occurs_in ''.json'' (outputPath store_a)"
    by (simp add: store_a_def)
  have e: "jobs (store_a\<lparr>jobs := []\<rparr>) = []"
    by simp
  have p: "backupPath ''2024-01-15T10:30:00.000Z'' (outputPath store_a) =
     ''./output/jobs-backup-2024-01-15_10-30-00-000.json''"
    by (simp add: backupPath_def backup_timestamp_def store_a_def)
  note a = backup_spec [of store_a "''2024-01-15T10:30:00.000Z''" "''2024-01-15T10:30:00.001Z''" empty_disk]
  note b = backup_spec [of "store_a\<lparr>jobs := []\<rparr>" "''2024-01-15T10:30:00.000Z''"
      "''2024-01-15T10:30:00.001Z''" empty_disk]
  note ra = mp [OF a [THEN conjunct2] h, THEN conjunct2, THEN conjunct2, THEN conjunct1]
  note rb = mp [OF b [THEN conjunct1] e]
  show ?thesis
    by (rule conjI [OF h [THEN conjunct1] conjI [OF h [THEN conjunct2]
          conjI [OF p conjI [OF ra conjI [OF e rb]]]]])
qed

text \<open>
  C9 as stated fails: the backup of a one-record store has the metadata keys
  \<open>totalJobs\<close> and \<open>backupDate\<close> only, while the primary catalog written by \<open>save\<close> has
  \<open>totalJobs\<close>, \<open>lastUpdated\<close> and \<open>version\<close>. The backup is not the primary document
  with a field added.
\<close>

theorem backup_shape_counterexample:
  "files (backup ''2024-01-15T10:30:00.000Z'' ''2024-01-15T10:30:00.001Z'' store_a empty_disk)
     ''./output/jobs-backup-2024-01-15_10-30-00-000.json'' =
     Some (Document [(''totalJobs'', JNum 1), (''backupDate'', JStr ''2024-01-15T10:30:00.001Z'')]
                    (Some [record_a])) \<and>
   files (save ''2024-01-15T10:30:00.000Z'' store_a empty_disk) ''./output/jobs.json'' =
     Some (Document [(''totalJobs'', JNum 1), (''lastUpdated'', JStr ''2024-01-15T10:30:00.000Z''),
                     (''version'', JStr ''1.0.0'')]
                    (Some [record_a])) \<and>
   map_of [(''totalJobs'', JNum 1), (''backupDate'', JStr ''2024-01-15T10:30:00.001Z'')] ''lastUpdated'' = None \<and>
   map_of [(''totalJobs'', JNum 1), (''backupDate'', JStr ''2024-01-15T10:30:00.001Z'')] ''version'' = None"
proof (intro conjI)
  show "files (backup ''2024-01-15T10:30:00.000Z'' ''2024-01-15T10:30:00.001Z'' store_a empty_disk)
     ''./output/jobs-backup-2024-01-15_10-30-00-000.json'' =
     Some (Document [(''totalJobs'', JNum 1), (''backupDate'', JStr ''2024-01-15T10:30:00.001Z'')]
                    (Some [record_a]))"
    by (simp add: backup_def backupPath_def backup_timestamp_def writeFileSync_def store_a_def
        empty_disk_def)
  show "files (save ''2024-01-15T10:30:00.000Z'' store_a empty_disk) ''./output/jobs.json'' =
     Some (Document [(''totalJobs'', JNum 1), (''lastUpdated'', JStr ''2024-01-15T10:30:00.000Z''),
                     (''version'', JStr ''1.0.0'')]
                    (Some [record_a]))"
    by (simp add: save_def writeFileSync_def store_a_def empty_disk_def)
  show "map_of [(''totalJobs'', JNum 1), (''backupDate'', JStr ''2024-01-15T10:30:00.001Z'')] ''lastUpdated'' = None"
    by simp
  show "map_of [(''totalJobs'', JNum 1), (''backupDate'', JStr ''2024-01-15T10:30:00.001Z'')] ''version'' = None"
    by simp
qed

section \<open>Properties of the listing walk\<close>

text \<open>One step of the loop.\<close>

lemma enqueue_page_simps [simp]:
  "currentUrl (enqueue_page clock found st) = currentUrl st"
  "pageNum (enqueue_page clock found st) = pageNum st"
  "fetches (enqueue_page clock found st) = Suc (fetches st)"
  by (simp_all add: enqueue_page_def Let_def)















lemma walk_diverges_throw:
  assumes "listing_walk cfg site clock st = Some r"
  shows "\<not> (0 < retryAttempts cfg \<and> (\<forall>k u. page_error (site k u)) \<and> truthy (currentUrl st))"
  apply (rule listing_walk.raw_induct
      [where P = "\<lambda>cfg site clock st r.
          \<not> (0 < retryAttempts cfg \<and> (\<forall>k u. page_error (site k u)) \<and> truthy (currentUrl st))",
       OF _ assms])
  subgoal premises prems for walk cfg site clock st r
  proof
    assume a: "0 < retryAttempts cfg \<and> (\<forall>k u. page_error (site k u)) \<and> truthy (currentUrl st)"
    then have c: "page_error (site (fetches st) (the (currentUrl st)))" by blast
    then obtain st' where p: "loop_pass cfg site clock st = Continue st'"
      and u: "currentUrl st' = currentUrl st"
      using a
      by (cases "site (fetches st) (the (currentUrl st))")
         (simp_all add: loop_pass_def catch_error_def)
    from prems(2) a p have "walk cfg site clock st' = Some r"
      by simp
    moreover have "truthy (currentUrl st')"
      using a u by simp
    ultimately show False
      using prems(1) a by blast
  qed
  done




text \<open>
  The walk over the two pages: two navigations, and the three distinct jobs in
  \<open>pending\<close> in the order in which they were found.
\<close>

lemma walk_two_pages:
  "map_option (\<lambda>r. (pageNum r, fetches r, pagesCompleted r, map job_id (pending (queue r))))
     (scrapeJobListings cfg_default two_page_site no_clock start_url
        (FileHandler ''./output/jobs.json'') JobQueue) =
   Some (2, 2, [2, 2], [''1001'', ''1002'', ''1003''])"
  by (simp add: scrapeJobListings_def initial_state_def listing_walk.simps loop_pass_def
      cfg_default_def two_page_site_def truthy_def start_url_def second_url_def
      enqueue_page_def Let_def addBulk_def getExistingIds_def FileHandler_def
      job_a_def job_b_def job_c_def queue_eval)

text \<open>
  Scenario E of the specification: with \<open>maxPages = 3\<close> and a next page on offer
  everywhere, the walk ends on page 3 after three navigations.
\<close>

lemma walk_cap3:
  "map_option (\<lambda>r. (pageNum r, fetches r, pagesCompleted r))
     (scrapeJobListings cfg_cap3 endless_site no_clock start_url
        (FileHandler ''./output/jobs.json'') JobQueue) = Some (3, 3, [0, 0, 0])"
  by (simp add: scrapeJobListings_def initial_state_def listing_walk.simps loop_pass_def
      cfg_cap3_def endless_site_def next_page_def truthy_def start_url_def enqueue_page_def
      Let_def addBulk_def)


text \<open>
  C4. The specification bounds the retries of a page by \<open>retryAttempts\<close> and has the
  walk abort afterwards. The loop only tests \<open>retryAttempts > 0\<close> and counts nothing: with
  \<open>retryAttempts = 1\<close>, a page whose every navigation throws is fetched for ever (the
  walk has no result), and a page that throws five times is fetched six times.
\<close>

theorem page_retry_unbounded:
  "retryAttempts cfg_retry1 = 1 \<and>
   scrapeJobListings cfg_retry1 dead_site no_clock start_url
     (FileHandler ''./output/jobs.json'') JobQueue = None \<and>
   map_option (\<lambda>r. (pageNum r, fetches r))
     (scrapeJobListings cfg_retry1 flaky_site no_clock start_url
        (FileHandler ''./output/jobs.json'') JobQueue) = Some (1, 6)"
proof (intro conjI)
  show "retryAttempts cfg_retry1 = 1"
    by (simp add: cfg_retry1_def)
  show "scrapeJobListings cfg_retry1 dead_site no_clock start_url
     (FileHandler ''./output/jobs.json'') JobQueue = None"
  proof (cases "scrapeJobListings cfg_retry1 dead_site no_clock start_url
     (FileHandler ''./output/jobs.json'') JobQueue")
    case None
    then show ?thesis .
  next
    case (Some r)
    then have "\<not> (0 < retryAttempts cfg_retry1 \<and> (\<forall>k u. page_error (dead_site k u)) \<and>
        truthy (Some start_url))"
      unfolding scrapeJobListings_def initial_state_def by (auto dest!: walk_diverges_throw)
    then show ?thesis
      by (simp add: cfg_retry1_def dead_site_def truthy_def start_url_def)
  qed
  show "map_option (\<lambda>r. (pageNum r, fetches r))
     (scrapeJobListings cfg_retry1 flaky_site no_clock start_url
        (FileHandler ''./output/jobs.json'') JobQueue) = Some (1, 6)"
    by (simp add: scrapeJobListings_def initial_state_def listing_walk.simps loop_pass_def
        catch_error_def cfg_retry1_def flaky_site_def last_page_def truthy_def start_url_def
        enqueue_page_def Let_def addBulk_def)
qed

end
